theory Spec2Isabelle
  imports
    Main
    "HOL-Library.Char_ord"
    "HOL-Library.List_Lexorder"
    "HOL-Library.Sublist"
begin

section \<open>Python strings and paths\<close>

text \<open>
  A Python \<open>str\<close> is modelled as a \<^typ>\<open>string\<close>; one \<^typ>\<open>char\<close> stands for one
  code point, so slicing and \<open>len\<close> count what Python counts.  The functions below are the
  string methods the program calls, written out.
\<close>

text \<open>\<open>s.split(c)\<close> for a one-character separator: never empty, \<open>"".split("-") = [""]\<close>.\<close>

fun split_on :: "char \<Rightarrow> string \<Rightarrow> string list" where
  "split_on c [] = [[]]"
| "split_on c (x # xs) =
     (if x = c then [] # split_on c xs
      else (case split_on c xs of
              [] \<Rightarrow> [[x]]
            | w # ws \<Rightarrow> (x # w) # ws))"

text \<open>\<open>sep.join(parts)\<close>.\<close>

fun join :: "string \<Rightarrow> string list \<Rightarrow> string" where
  "join sep [] = []"
| "join sep [p] = p"
| "join sep (p # q # ps) = p @ sep @ join sep (q # ps)"

text \<open>\<open>sub in s\<close> on strings: \<open>sub\<close> occurs as a contiguous run of \<open>s\<close>.\<close>

fun str_contains :: "string \<Rightarrow> string \<Rightarrow> bool" where
  "str_contains sub [] = (sub = [])"
| "str_contains sub (c # cs) = (prefix sub (c # cs) \<or> str_contains sub cs)"

text \<open>
  \<open>s.replace(old, new)\<close> for a non-empty \<open>old\<close>: the occurrences are found from the left
  and do not overlap.  (The program only replaces \<open>"Z"\<close> and a directory followed by
  \<open>"/"\<close>; for an empty \<open>old\<close> the function below returns \<open>s\<close>.)
\<close>

function str_replace :: "string \<Rightarrow> string \<Rightarrow> string \<Rightarrow> string" where
  "str_replace old new [] = []"
| "str_replace old new (c # cs) =
     (if old \<noteq> [] \<and> prefix old (c # cs)
      then new @ str_replace old new (drop (length old) (c # cs))
      else c # str_replace old new cs)"
  by pat_completeness auto
termination
  by (relation "measure (\<lambda>(old, new, s). length s)") auto

text \<open>
  A \<open>pathlib.Path\<close> is modelled by its string (\<open>str(p)\<close>).  \<open>p.name\<close> is the last
  component, \<open>p.parent\<close> everything before the last separator, and \<open>p.stem\<close> the name
  without its last suffix: \<open>i = name.rfind(".")\<close>, and \<open>name[:i]\<close> when
  \<open>0 < i < len(name) - 1\<close>, the name itself otherwise.
\<close>

definition path_name :: "string \<Rightarrow> string" where
  "path_name p = last (split_on CHR ''/'' p)"

definition path_parent :: "string \<Rightarrow> string" where
  "path_parent p =
     (if CHR ''/'' \<notin> set p then ''.''
      else (let d = take (length p - length (path_name p) - 1) p
            in if d = [] then ''/'' else d))"

definition name_stem :: "string \<Rightarrow> string" where
  "name_stem n =
     (if CHR ''.'' \<notin> set n then n
      else (let suffix_len = length (takeWhile (\<lambda>c. c \<noteq> CHR ''.'') (rev n));
                i = length n - suffix_len - 1
            in if 0 < i \<and> i < length n - 1 then take i n else n))"

definition path_stem :: "string \<Rightarrow> string" where
  "path_stem p = name_stem (path_name p)"


section \<open>Exceptions\<close>

text \<open>The exception classes the program can meet; a raise is the value \<open>Inl\<close> of a sum.\<close>

datatype error =
    JSONDecodeError
  | FileNotFoundError
  | PermissionError
  | OSError
  | UnicodeDecodeError
  | AttributeError
  | TypeError
  | KeyError
  | OverflowError


section \<open>Path decoder\<close>

text \<open>
  \<open>decode_project_dir_name\<close> (lines 170-196).  \<open>Path(test_path).exists()\<close> asks the file
  system; the model takes the answer as the function \<open>ex\<close>.  The call returns a bool
  when the path is there or is plainly absent, and raises the \<open>OSError\<close> of \<open>stat\<close> for
  any other failure (permission denied on a parent directory, a name that is too long);
  line 189 is inside no \<open>try\<close>, so such an exception leaves the decoder.  The \<open>while\<close>
  loop walks \<open>parts\<close> from the left with the list \<open>path_parts\<close> built so far:
  \<open>decode_loop\<close> is the loop with \<open>parts[i:]\<close> as its last argument.
\<close>

fun decode_loop ::
  "(string \<Rightarrow> error + bool) \<Rightarrow> string list \<Rightarrow> string list \<Rightarrow> error + string list" where
  "decode_loop ex path_parts [] = Inr path_parts"
| "decode_loop ex path_parts [part] = Inr (path_parts @ [part])"
| "decode_loop ex path_parts (part # nxt # rest) =
     (let combined = part @ ''_'' @ nxt;
          test_path = ''/'' @ join ''/'' (path_parts @ [combined])
      in (case ex test_path of
            Inl err \<Rightarrow> Inl err
          | Inr True \<Rightarrow> decode_loop ex (path_parts @ [combined]) rest
          | Inr False \<Rightarrow> decode_loop ex (path_parts @ [part]) (nxt # rest)))"

definition decode_project_dir_name :: "(string \<Rightarrow> error + bool) \<Rightarrow> string \<Rightarrow> error + string" where
  "decode_project_dir_name ex encoded =
     (if \<not> prefix ''-'' encoded then Inr encoded
      else (let parts = split_on CHR ''-'' (drop 1 encoded)
            in (case decode_loop ex [] parts of
                  Inl err \<Rightarrow> Inl err
                | Inr path_parts \<Rightarrow> Inr (''/'' @ join ''/'' path_parts))))"

text \<open>
  The encoding of the round-trip property, as the specification words it: every path
  separator is replaced by the delimiter character.
\<close>

definition encode_path :: "string \<Rightarrow> string" where
  "encode_path p = map (\<lambda>c. if c = CHR ''/'' then CHR ''-'' else c) p"

text \<open>
  The paths the decoder asks the file system about as long as it never merges: at each
  position but the last, the segments kept so far followed by this segment and the next
  joined by an underscore.
\<close>

fun merge_probes :: "string list \<Rightarrow> string list \<Rightarrow> string list" where
  "merge_probes path_parts (part # nxt # rest) =
     (''/'' @ join ''/'' (path_parts @ [part @ ''_'' @ nxt]))
       # merge_probes (path_parts @ [part]) (nxt # rest)"
| "merge_probes path_parts _ = []"


section \<open>Values\<close>

text \<open>
  What \<open>json.load\<close> and \<open>json.loads\<close> return: \<open>None\<close>, a bool, a number, a string, a
  list, or a dict, which keeps its items in order.  Numbers are integers here; a JSON
  float takes the same branch as an integer on every path below (truthy unless zero, no
  \<open>replace\<close>, no slicing, hashable).
\<close>

datatype json =
    JNull
  | JBool bool
  | JInt int
  | JStr string
  | JArr "json list"
  | JObj "(string \<times> json) list"

text \<open>
  A \<open>datetime\<close> is its wall-clock reading in microseconds since \<open>0001-01-01T00:00:00\<close>
  (which is \<open>datetime.min\<close>), naive or together with its UTC offset in microseconds.
\<close>

datatype datetime = Naive int | Aware int int

text \<open>The values held by a session dict: JSON values and datetimes.\<close>

datatype pyval = Json json | Datetime datetime

type_synonym session = "(string \<times> pyval) list"

text \<open>Truth value of a JSON value in an \<open>if\<close>.\<close>

fun truthy :: "json \<Rightarrow> bool" where
  "truthy JNull = False"
| "truthy (JBool b) = b"
| "truthy (JInt n) = (n \<noteq> 0)"
| "truthy (JStr s) = (s \<noteq> [])"
| "truthy (JArr xs) = (xs \<noteq> [])"
| "truthy (JObj kv) = (kv \<noteq> [])"

fun py_truthy :: "pyval \<Rightarrow> bool" where
  "py_truthy (Json j) = truthy j"
| "py_truthy (Datetime d) = True"

text \<open>\<open>d.get(k, default)\<close> on a dict.\<close>

definition dict_get :: "(string \<times> 'v) list \<Rightarrow> string \<Rightarrow> 'v \<Rightarrow> 'v" where
  "dict_get d k dflt = (case map_of d k of None \<Rightarrow> dflt | Some v \<Rightarrow> v)"

text \<open>\<open>x.get(k, default)\<close> on any value: only a dict has \<open>get\<close>.\<close>

fun json_get :: "json \<Rightarrow> string \<Rightarrow> json \<Rightarrow> error + json" where
  "json_get (JObj kv) k dflt = Inr (dict_get kv k dflt)"
| "json_get _ k dflt = Inl AttributeError"

text \<open>
  \<open>for entry in x\<close>: a list gives its elements, a dict its keys, a string its characters;
  nothing else can be iterated.
\<close>

fun json_iter :: "json \<Rightarrow> error + json list" where
  "json_iter (JArr xs) = Inr xs"
| "json_iter (JObj kv) = Inr (map (\<lambda>(k, v). JStr k) kv)"
| "json_iter (JStr s) = Inr (map (\<lambda>c. JStr [c]) s)"
| "json_iter _ = Inl TypeError"

text \<open>
  \<open>x[:100]\<close>: strings and lists can be sliced.  A dict raises (\<open>TypeError\<close> for the
  unhashable slice up to Python 3.11), and so do numbers, bools and \<open>None\<close>.
\<close>

fun slice100 :: "json \<Rightarrow> error + json" where
  "slice100 (JStr s) = Inr (JStr (take 100 s))"
| "slice100 (JArr xs) = Inr (JArr (take 100 xs))"
| "slice100 _ = Inl TypeError"

text \<open>
  Lists and dicts cannot be put into a set.  The set of indexed identifiers is only ever
  asked about a string, and a string is equal to strings only, so membership of
  \<open>Json (JStr s)\<close> in a set of values is what \<open>s in indexed_sessions\<close> computes.
\<close>

fun hashable :: "pyval \<Rightarrow> bool" where
  "hashable (Json (JArr xs)) = False"
| "hashable (Json (JObj kv)) = False"
| "hashable _ = True"


section \<open>Index parser\<close>

text \<open>
  An index file as \<open>open\<close> and \<open>json.load\<close> find it (lines 39-40): absent
  (\<open>FileNotFoundError\<close>), present but not readable (\<open>PermissionError\<close>), not text in the
  expected encoding (\<open>UnicodeDecodeError\<close>), text that is not JSON (\<open>JSONDecodeError\<close>),
  or JSON with its value.
\<close>

datatype index_file = Missing | Unreadable | Undecodable | Malformed | Parsed json

text \<open>
  Lines 45-52.  \<open>datetime.fromisoformat\<close> is the parameter \<open>fromiso\<close>, \<open>None\<close> where it
  raises \<open>ValueError\<close>.  A truthy value that is not a string has no \<open>replace\<close>.
\<close>

definition parse_created :: "(string \<Rightarrow> datetime option) \<Rightarrow> json \<Rightarrow> error + pyval" where
  "parse_created fromiso created_str =
     (if truthy created_str
      then (case created_str of
              JStr s \<Rightarrow>
                (case fromiso (str_replace ''Z'' ''+00:00'' s) of
                   Some created \<Rightarrow> Inr (Datetime created)
                 | None \<Rightarrow> Inr (Json JNull))
            | _ \<Rightarrow> Inl AttributeError)
      else Inr (Json JNull))"

text \<open>Lines 44-64, the body of the loop for one entry; \<open>d\<close> is the top-level dict.\<close>

fun parse_entry ::
  "(string \<Rightarrow> datetime option) \<Rightarrow> (string \<times> json) list \<Rightarrow> json \<Rightarrow> error + session" where
  "parse_entry fromiso d (JObj e) =
     (case parse_created fromiso (dict_get e ''created'' (JStr [])) of
        Inl err \<Rightarrow> Inl err
      | Inr created \<Rightarrow>
          (case slice100 (dict_get e ''firstPrompt'' (JStr [])) of
             Inl err \<Rightarrow> Inl err
           | Inr first_prompt \<Rightarrow>
               Inr [(''session_id'', Json (dict_get e ''sessionId'' (JStr []))),
                    (''summary'', Json (dict_get e ''summary'' (JStr ''No summary''))),
                    (''first_prompt'', Json first_prompt),
                    (''message_count'', Json (dict_get e ''messageCount'' (JInt 0))),
                    (''created'', created),
                    (''modified'', Json (dict_get e ''modified'' (JStr []))),
                    (''project_path'',
                       Json (dict_get e ''projectPath'' (dict_get d ''originalPath'' (JStr [])))),
                    (''git_branch'', Json (dict_get e ''gitBranch'' (JStr []))),
                    (''full_path'', Json (dict_get e ''fullPath'' (JStr [])))]))"
| "parse_entry fromiso d _ = Inl AttributeError"

fun parse_entries ::
  "(string \<Rightarrow> datetime option) \<Rightarrow> (string \<times> json) list \<Rightarrow> json list \<Rightarrow> error + session list" where
  "parse_entries fromiso d [] = Inr []"
| "parse_entries fromiso d (entry # entries) =
     (case parse_entry fromiso d entry of
        Inl err \<Rightarrow> Inl err
      | Inr s \<Rightarrow>
          (case parse_entries fromiso d entries of
             Inl err \<Rightarrow> Inl err
           | Inr sessions \<Rightarrow> Inr (s # sessions)))"

text \<open>The \<open>try\<close> block of \<open>parse_session_index\<close> (lines 39-66), exceptions as \<open>Inl\<close>.\<close>

fun parse_index_body :: "(string \<Rightarrow> datetime option) \<Rightarrow> index_file \<Rightarrow> error + session list" where
  "parse_index_body fromiso Missing = Inl FileNotFoundError"
| "parse_index_body fromiso Unreadable = Inl PermissionError"
| "parse_index_body fromiso Undecodable = Inl UnicodeDecodeError"
| "parse_index_body fromiso Malformed = Inl JSONDecodeError"
| "parse_index_body fromiso (Parsed (JObj d)) =
     (case json_iter (dict_get d ''entries'' (JArr [])) of
        Inl err \<Rightarrow> Inl err
      | Inr entries \<Rightarrow> parse_entries fromiso d entries)"
| "parse_index_body fromiso (Parsed _) = Inl AttributeError"

text \<open>
  \<open>parse_session_index\<close> (lines 36-69): the \<open>except\<close> clause names two exception classes
  and turns them into the empty list; every other exception leaves the function.
\<close>

definition parse_session_index ::
  "(string \<Rightarrow> datetime option) \<Rightarrow> index_file \<Rightarrow> error + session list" where
  "parse_session_index fromiso index_path =
     (case parse_index_body fromiso index_path of
        Inl err \<Rightarrow>
          (if err = JSONDecodeError \<or> err = FileNotFoundError then Inr [] else Inl err)
      | Inr sessions \<Rightarrow> Inr sessions)"


section \<open>Orphan finder\<close>

text \<open>
  A log file found by the glob \<open>*/*.jsonl\<close>: its path, the naive local datetime
  \<open>datetime.fromtimestamp(stat.st_mtime)\<close> (\<open>None\<close> when \<open>stat\<close> or the conversion
  raises), and its lines (\<open>None\<close> when \<open>open\<close> raises).  A line either cannot be read
  (the iteration raises, as on undecodable bytes), is not JSON (\<open>json.loads\<close> raises
  \<open>JSONDecodeError\<close>), or is a JSON record.
\<close>

datatype line = Unreadable_line | Not_json | Record json

record log_file =
  file_path :: string
  file_mtime :: "int option"
  file_lines :: "line list option"

text \<open>The test of lines 78 and 317.\<close>

definition skipped :: "string \<Rightarrow> bool" where
  "skipped p = (str_contains ''subagents'' p \<or> prefix ''agent-'' (path_name p))"

text \<open>\<open>"message" in data\<close> (line 94).\<close>

fun has_message :: "json \<Rightarrow> error + bool" where
  "has_message (JObj kv) = Inr (map_of kv ''message'' \<noteq> None)"
| "has_message (JArr xs) = Inr (JStr ''message'' \<in> set xs)"
| "has_message (JStr s) = Inr (str_contains ''message'' s)"
| "has_message _ = Inl TypeError"

text \<open>\<open>data["message"]\<close> (line 95).\<close>

fun subscript_message :: "json \<Rightarrow> error + json" where
  "subscript_message (JObj kv) =
     (case map_of kv ''message'' of None \<Rightarrow> Inl KeyError | Some v \<Rightarrow> Inr v)"
| "subscript_message _ = Inl TypeError"

text \<open>
  The loop of lines 91-100 over the lines of the file; the result is \<open>first_prompt\<close>.
  \<open>JSONDecodeError\<close> is caught inside the loop, any other exception leaves it.
\<close>

fun first_prompt_scan :: "line list \<Rightarrow> error + string" where
  "first_prompt_scan [] = Inr []"
| "first_prompt_scan (Unreadable_line # rest) = Inl UnicodeDecodeError"
| "first_prompt_scan (Not_json # rest) = first_prompt_scan rest"
| "first_prompt_scan (Record data # rest) =
     (case has_message data of
        Inl err \<Rightarrow> Inl err
      | Inr False \<Rightarrow> first_prompt_scan rest
      | Inr True \<Rightarrow>
          (case subscript_message data of
             Inl err \<Rightarrow> Inl err
           | Inr msg \<Rightarrow>
               (case json_get msg ''content'' (JStr []) of
                  Inl err \<Rightarrow> Inl err
                | Inr (JStr content) \<Rightarrow> Inr (take 100 content)
                | Inr _ \<Rightarrow> first_prompt_scan rest)))"

text \<open>The \<open>try\<close> block of lines 84-110 for one file.\<close>

definition orphan_session :: "string \<Rightarrow> log_file \<Rightarrow> error + session" where
  "orphan_session projects_dir f =
     (case file_mtime f of
        None \<Rightarrow> Inl PermissionError
      | Some created \<Rightarrow>
          (case file_lines f of
             None \<Rightarrow> Inl PermissionError
           | Some ls \<Rightarrow>
               (case first_prompt_scan ls of
                  Inl err \<Rightarrow> Inl err
                | Inr first_prompt \<Rightarrow>
                    Inr [(''session_id'', Json (JStr (path_stem (file_path f)))),
                         (''summary'',
                            Json (JStr (if first_prompt \<noteq> []
                                        then ''Unindexed session: '' @ take 50 first_prompt @ ''...''
                                        else ''Unindexed session''))),
                         (''first_prompt'', Json (JStr first_prompt)),
                         (''message_count'', Json (JInt 0)),
                         (''created'', Datetime (Naive created)),
                         (''project_path'',
                            Json (JStr (str_replace (projects_dir @ ''/'') []
                                          (path_parent (file_path f))))),
                         (''full_path'', Json (JStr (file_path f)))])))"

text \<open>
  \<open>find_orphan_sessions\<close> (lines 72-114) over the files the glob lists.  The set of
  indexed identifiers holds whatever the indexes gave as \<open>sessionId\<close>; the stem looked up
  in it is a string, and a string is equal to strings only.  \<open>except Exception\<close> drops the
  file.
\<close>

fun find_orphan_sessions :: "string \<Rightarrow> log_file list \<Rightarrow> pyval set \<Rightarrow> session list" where
  "find_orphan_sessions projects_dir [] indexed_sessions = []"
| "find_orphan_sessions projects_dir (f # fs) indexed_sessions =
     (if skipped (file_path f)
      then find_orphan_sessions projects_dir fs indexed_sessions
      else if Json (JStr (path_stem (file_path f))) \<notin> indexed_sessions
      then (case orphan_session projects_dir f of
              Inl err \<Rightarrow> find_orphan_sessions projects_dir fs indexed_sessions
            | Inr s \<Rightarrow> s # find_orphan_sessions projects_dir fs indexed_sessions)
      else find_orphan_sessions projects_dir fs indexed_sessions)"


section \<open>Session collector\<close>

text \<open>Lines 128-129: \<open>indexed_session_ids.add(session["session_id"])\<close> for each session.\<close>

fun add_session_ids :: "session list \<Rightarrow> pyval set \<Rightarrow> error + pyval set" where
  "add_session_ids [] ids = Inr ids"
| "add_session_ids (s # ss) ids =
     (case map_of s ''session_id'' of
        None \<Rightarrow> Inl KeyError
      | Some v \<Rightarrow> if hashable v then add_session_ids ss (insert v ids) else Inl TypeError)"

text \<open>
  The loop of lines 126-130 over the index files the glob \<open>*/sessions-index.json\<close> lists,
  with \<open>all_sessions\<close> and \<open>indexed_session_ids\<close> as its state.
\<close>

fun collect_indexed ::
  "(string \<Rightarrow> datetime option) \<Rightarrow> index_file list \<Rightarrow> session list \<Rightarrow> pyval set
     \<Rightarrow> error + session list \<times> pyval set" where
  "collect_indexed fromiso [] all_sessions ids = Inr (all_sessions, ids)"
| "collect_indexed fromiso (index_path # rest) all_sessions ids =
     (case parse_session_index fromiso index_path of
        Inl err \<Rightarrow> Inl err
      | Inr sessions \<Rightarrow>
          (case add_session_ids sessions ids of
             Inl err \<Rightarrow> Inl err
           | Inr ids' \<Rightarrow> collect_indexed fromiso rest (all_sessions @ sessions) ids'))"

text \<open>\<open>collect_all_sessions\<close> (lines 117-136).\<close>

definition collect_all_sessions ::
  "(string \<Rightarrow> datetime option) \<Rightarrow> string \<Rightarrow> index_file list \<Rightarrow> log_file list
     \<Rightarrow> error + session list" where
  "collect_all_sessions fromiso projects_dir indexes files =
     (case collect_indexed fromiso indexes [] {} of
        Inl err \<Rightarrow> Inl err
      | Inr (all_sessions, indexed_session_ids) \<Rightarrow>
          Inr (all_sessions @ find_orphan_sessions projects_dir files indexed_session_ids))"


section \<open>Date grouper\<close>

text \<open>
  The number of microseconds a \<open>datetime\<close> can hold: \<open>datetime.max\<close> is the last
  microsecond of day 3652059.
\<close>

definition max_micro :: int where
  "max_micro = 3652059 * 86400000000"

text \<open>
  \<open>normalize_datetime\<close> (lines 139-147).  The result is \<open>None\<close> or a naive datetime,
  given by its microseconds.  \<open>astimezone\<close> subtracts the offset and raises
  \<open>OverflowError\<close> when the result is no date; anything that is neither \<open>None\<close> nor a
  datetime has no \<open>tzinfo\<close>.
\<close>

fun normalize_datetime :: "pyval \<Rightarrow> error + int option" where
  "normalize_datetime (Json JNull) = Inr None"
| "normalize_datetime (Datetime (Naive t)) = Inr (Some t)"
| "normalize_datetime (Datetime (Aware t off)) =
     (if 0 \<le> t - off \<and> t - off < max_micro then Inr (Some (t - off)) else Inl OverflowError)"
| "normalize_datetime (Json _) = Inl AttributeError"

text \<open>\<open>session["created"]\<close>.\<close>

definition created_of :: "session \<Rightarrow> error + pyval" where
  "created_of s = (case map_of s ''created'' of None \<Rightarrow> Inl KeyError | Some v \<Rightarrow> Inr v)"

text \<open>
  The sort key of line 164, \<open>normalize_datetime(s["created"]) or datetime.min\<close>: a naive
  datetime, compared by its microseconds.
\<close>

definition time_key :: "session \<Rightarrow> error + int" where
  "time_key s =
     (case created_of s of
        Inl err \<Rightarrow> Inl err
      | Inr created \<Rightarrow>
          (case normalize_datetime created of
             Inl err \<Rightarrow> Inl err
           | Inr None \<Rightarrow> Inr 0
           | Inr (Some t) \<Rightarrow> Inr t))"

text \<open>
  Lines 155-159: the bucket of a session.  \<open>strftime("%Y-%m-%d")\<close> is the parameter
  \<open>strftime_ymd\<close>; a truthy value that is not a datetime has no \<open>strftime\<close>.
\<close>

definition date_key :: "(datetime \<Rightarrow> string) \<Rightarrow> session \<Rightarrow> error + string" where
  "date_key strftime_ymd s =
     (case created_of s of
        Inl err \<Rightarrow> Inl err
      | Inr created \<Rightarrow>
          (if py_truthy created
           then (case created of
                   Datetime d \<Rightarrow> Inr (strftime_ymd d)
                 | Json _ \<Rightarrow> Inl AttributeError)
           else Inr ''Unknown''))"

text \<open>
  \<open>by_date[date_key].append(session)\<close> on the \<open>defaultdict\<close>, which keeps its keys in
  the order of their first use.
\<close>

fun bucket_append ::
  "string \<Rightarrow> session \<Rightarrow> (string \<times> session list) list \<Rightarrow> (string \<times> session list) list" where
  "bucket_append k s [] = [(k, [s])]"
| "bucket_append k s ((k', b) # rest) =
     (if k = k' then (k', b @ [s]) # rest else (k', b) # bucket_append k s rest)"

text \<open>The loop of lines 154-159.\<close>

fun group_loop ::
  "(datetime \<Rightarrow> string) \<Rightarrow> session list \<Rightarrow> (string \<times> session list) list
     \<Rightarrow> error + (string \<times> session list) list" where
  "group_loop strftime_ymd [] by_date = Inr by_date"
| "group_loop strftime_ymd (s # sessions) by_date =
     (case date_key strftime_ymd s of
        Inl err \<Rightarrow> Inl err
      | Inr k \<Rightarrow> group_loop strftime_ymd sessions (bucket_append k s by_date))"

text \<open>
  \<open>list.sort(key=...)\<close> computes the key of every element first, in order, and then
  sorts stably by the keys.
\<close>

fun time_keys :: "session list \<Rightarrow> error + int list" where
  "time_keys [] = Inr []"
| "time_keys (s # ss) =
     (case time_key s of
        Inl err \<Rightarrow> Inl err
      | Inr k \<Rightarrow> (case time_keys ss of Inl err \<Rightarrow> Inl err | Inr ks \<Rightarrow> Inr (k # ks)))"

definition sort_bucket :: "session list \<Rightarrow> error + session list" where
  "sort_bucket b =
     (case time_keys b of
        Inl err \<Rightarrow> Inl err
      | Inr ks \<Rightarrow> Inr (map snd (sort_key fst (zip ks b))))"

text \<open>The loop of lines 162-165 over the buckets.\<close>

fun sort_buckets ::
  "(string \<times> session list) list \<Rightarrow> error + (string \<times> session list) list" where
  "sort_buckets [] = Inr []"
| "sort_buckets ((k, b) # rest) =
     (case sort_bucket b of
        Inl err \<Rightarrow> Inl err
      | Inr b' \<Rightarrow>
          (case sort_buckets rest of
             Inl err \<Rightarrow> Inl err
           | Inr rest' \<Rightarrow> Inr ((k, b') # rest')))"

text \<open>
  \<open>group_sessions_by_date\<close> (lines 150-167).  The keys of \<open>by_date\<close> are distinct, so
  \<open>sorted(by_date.items())\<close> orders the pairs by their keys.
\<close>

definition group_sessions_by_date ::
  "(datetime \<Rightarrow> string) \<Rightarrow> session list \<Rightarrow> error + (string \<times> session list) list" where
  "group_sessions_by_date strftime_ymd sessions =
     (case group_loop strftime_ymd sessions [] of
        Inl err \<Rightarrow> Inl err
      | Inr by_date \<Rightarrow>
          (case sort_buckets by_date of
             Inl err \<Rightarrow> Inl err
           | Inr sorted_buckets \<Rightarrow> Inr (sort_key fst sorted_buckets)))"


section \<open>Transcript viewer: file lookup\<close>

text \<open>Lines 315-320: the files that match, in the order of the glob.\<close>

definition session_matches :: "string \<Rightarrow> log_file list \<Rightarrow> log_file list" where
  "session_matches session_id files =
     filter (\<lambda>f. \<not> skipped (file_path f) \<and> str_contains session_id (path_stem (file_path f)))
       files"

text \<open>
  \<open>find_session_file\<close> (lines 310-329): the file returned, if any, and the lines printed
  to standard output.
\<close>

definition find_session_file :: "string \<Rightarrow> log_file list \<Rightarrow> log_file option \<times> string list" where
  "find_session_file session_id files =
     (let matches = session_matches session_id files
      in if length matches = 1 then (Some (hd matches), [])
         else if length matches > 1
         then (None,
               (''Multiple sessions match '' @ [CHR 0x27] @ session_id @ [CHR 0x27] @ '':'')
                 # map (\<lambda>m. ''  '' @ path_stem (file_path m)) matches)
         else (None, []))"

text \<open>
  \<open>view_session\<close> (lines 373-424): what it returns, and the lines printed on the way.
  The rendering of a file that was found (lines 379-424) is the parameter \<open>render\<close>.
\<close>

definition view_session ::
  "(log_file \<Rightarrow> int \<Rightarrow> error + string) \<Rightarrow> string \<Rightarrow> log_file list \<Rightarrow> int
     \<Rightarrow> (error + string) \<times> string list" where
  "view_session render session_id files max_messages =
     (case find_session_file session_id files of
        (None, printed) \<Rightarrow> (Inr (''Session not found: '' @ session_id), printed)
      | (Some session_file, printed) \<Rightarrow> (render session_file max_messages, printed))"


section \<open>Vocabulary of the claims\<close>

text \<open>\<open>session["session_id"]\<close>, \<open>None\<close> when the dict has no such key.\<close>

definition session_id_of :: "session \<Rightarrow> pyval option" where
  "session_id_of s = map_of s ''session_id''"

text \<open>
  The identifiers an index file lists: the \<open>sessionId\<close> of each of its entries, with the
  default of line 55 where an entry has none.  A file that is absent or is not JSON lists
  none.
\<close>

fun entry_session_id :: "json \<Rightarrow> json" where
  "entry_session_id (JObj e) = dict_get e ''sessionId'' (JStr [])"
| "entry_session_id _ = JNull"

definition index_session_ids :: "index_file \<Rightarrow> json list" where
  "index_session_ids idx =
     (case idx of
        Parsed (JObj d) \<Rightarrow>
          (case json_iter (dict_get d ''entries'' (JArr [])) of
             Inl err \<Rightarrow> []
           | Inr entries \<Rightarrow> map entry_session_id entries)
      | _ \<Rightarrow> [])"

text \<open>The keys of the dict built in lines 54-64, and of the one built in lines 102-110.\<close>

definition indexed_keys :: "string list" where
  "indexed_keys = [''session_id'', ''summary'', ''first_prompt'', ''message_count'', ''created'',
                   ''modified'', ''project_path'', ''git_branch'', ''full_path'']"

definition orphan_keys :: "string list" where
  "orphan_keys = [''session_id'', ''summary'', ''first_prompt'', ''message_count'', ''created'',
                  ''project_path'', ''full_path'']"

text \<open>The bucket stored under a key of \<open>by_date\<close>, empty when the key is not there.\<close>

definition lookup_bucket :: "(string \<times> session list) list \<Rightarrow> string \<Rightarrow> session list" where
  "lookup_bucket by_date k = (case map_of by_date k of None \<Rightarrow> [] | Some b \<Rightarrow> b)"

text \<open>
  The \<open>created\<close> values on which grouping cannot fail: \<open>None\<close>, a naive datetime, or
  an aware one whose UTC instant is a date.
\<close>

fun created_ok :: "pyval \<Rightarrow> bool" where
  "created_ok (Json JNull) = True"
| "created_ok (Datetime (Naive t)) = True"
| "created_ok (Datetime (Aware t off)) = (0 \<le> t - off \<and> t - off < max_micro)"
| "created_ok (Json _) = False"


section \<open>Example inputs\<close>

text \<open>
  A disk on which both \<open>/a/b\<close> and \<open>/a_b\<close> exist, and nothing else; one that holds
  \<open>/home/pat/dev\<close> only; and one on which every existence check is refused.  On the
  first two no check raises.
\<close>

definition disk_ab :: "string \<Rightarrow> error + bool" where
  "disk_ab p = Inr (p = ''/a/b'' \<or> p = ''/a_b'')"

definition disk_dev :: "string \<Rightarrow> error + bool" where
  "disk_dev p = Inr (p = ''/home/pat/dev'')"

definition disk_denied :: "string \<Rightarrow> error + bool" where
  "disk_denied p = Inl PermissionError"

text \<open>
  A \<open>fromisoformat\<close> that reads one timestamp, 10:00 UTC on 2024-01-01; an index file
  with one entry; log files for the indexed session, for an unindexed one and for a
  subagent; and the sessions the first two give.
\<close>

definition iso_example :: "string \<Rightarrow> datetime option" where
  "iso_example s =
     (if s = ''2024-01-01T10:00:00+00:00'' then Some (Aware 63839700000000000 0) else None)"

definition index_abc :: index_file where
  "index_abc =
     Parsed (JObj [(''entries'',
       JArr [JObj [(''sessionId'', JStr ''abc''),
                   (''created'', JStr ''2024-01-01T10:00:00Z''),
                   (''messageCount'', JInt 5)]])])"

definition log_abc :: log_file where
  "log_abc = \<lparr>file_path = ''/p/proj/abc.jsonl'', file_mtime = Some 63839700000000000,
               file_lines = Some []\<rparr>"

definition log_xyz :: log_file where
  "log_xyz = \<lparr>file_path = ''/p/proj/xyz.jsonl'', file_mtime = Some 63839700000000000,
               file_lines = Some [Not_json,
                 Record (JObj [(''message'', JObj [(''role'', JStr ''user''),
                                                   (''content'', JStr ''hello'')])])]\<rparr>"

definition log_agent :: log_file where
  "log_agent = \<lparr>file_path = ''/p/proj/agent-7.jsonl'', file_mtime = Some 63839700000000000,
                 file_lines = Some []\<rparr>"

definition session_abc :: session where
  "session_abc =
     [(''session_id'', Json (JStr ''abc'')),
      (''summary'', Json (JStr ''No summary'')),
      (''first_prompt'', Json (JStr [])),
      (''message_count'', Json (JInt 5)),
      (''created'', Datetime (Aware 63839700000000000 0)),
      (''modified'', Json (JStr [])),
      (''project_path'', Json (JStr [])),
      (''git_branch'', Json (JStr [])),
      (''full_path'', Json (JStr []))]"

definition session_xyz :: session where
  "session_xyz =
     [(''session_id'', Json (JStr ''xyz'')),
      (''summary'', Json (JStr ''Unindexed session: hello...'')),
      (''first_prompt'', Json (JStr ''hello'')),
      (''message_count'', Json (JInt 0)),
      (''created'', Datetime (Naive 63839700000000000)),
      (''project_path'', Json (JStr ''proj'')),
      (''full_path'', Json (JStr ''/p/proj/xyz.jsonl''))]"

text \<open>
  A \<open>strftime\<close> for two days, and a rendering that stands for lines 379-424; two more
  log files, whose stems share \<open>ab\<close> with \<open>abc\<close>.
\<close>

definition strftime_example :: "datetime \<Rightarrow> string" where
  "strftime_example d =
     (let day = (case d of Naive t \<Rightarrow> t | Aware t off \<Rightarrow> t) div 86400000000
      in if day = 738885 then ''2024-01-01'' else ''0001-01-01'')"

definition render_example :: "log_file \<Rightarrow> int \<Rightarrow> error + string" where
  "render_example f max_messages = Inr (''# Session: '' @ path_stem (file_path f))"

definition log_abd :: log_file where
  "log_abd = \<lparr>file_path = ''/p/proj/abd.jsonl'', file_mtime = Some 63839700000000000,
               file_lines = Some []\<rparr>"

definition log_abcd :: log_file where
  "log_abcd = \<lparr>file_path = ''/p/other/abcd.jsonl'', file_mtime = Some 63839700000000000,
                file_lines = Some []\<rparr>"


section \<open>Properties of the string functions\<close>

lemma split_on_not_Nil [simp]: "split_on c s \<noteq> []"
  by (induction s) (auto split: list.splits)

lemma join_split_on: "join [c] (split_on c s) = s"
proof (induction s)
  case Nil
  show ?case by simp
next
  case (Cons x xs)
  obtain w ws where ws: "split_on c xs = w # ws"
    by (cases "split_on c xs") simp_all
  with Cons show ?case by (cases ws) auto
qed

lemma split_on_encode:
  "CHR ''-'' \<notin> set s \<Longrightarrow> split_on CHR ''-'' (encode_path s) = split_on CHR ''/'' s"
  by (induction s) (auto simp: encode_path_def split: list.splits)

lemma str_contains_sublist: "str_contains sub s = sublist sub s"
  by (induction s) (auto simp: sublist_Cons_right)

lemma decode_loop_no_merge:
  "\<forall>t \<in> set (merge_probes acc parts). ex t = Inr False \<Longrightarrow>
     decode_loop ex acc parts = Inr (acc @ parts)"
proof (induction acc parts rule: merge_probes.induct)
  case (1 path_parts part nxt rest)
  then show ?case by (simp add: Let_def)
qed simp_all

lemma decode_loop_first_probe_raises:
  "ex (''/'' @ join ''/'' (acc @ [part @ ''_'' @ nxt])) = Inl err \<Longrightarrow>
     decode_loop ex acc (part # nxt # rest) = Inl err"
  by (simp add: Let_def)


section \<open>Claims about the path decoder\<close>

text \<open>
  C3, as stated: for every absolute path without the delimiter in any segment that exists
  on disk, decoding its encoded form gives the path back.  This fails.  The decoder joins
  two neighbouring segments with an underscore whenever the joined path exists, so with
  both \<open>/a/b\<close> and \<open>/a_b\<close> on disk, and no existence check raising, the encoded name
  \<open>-a-b\<close> decodes to \<open>/a_b\<close>.
\<close>

theorem decode_roundtrip_counterexample:
  "prefix ''/'' ''/a/b'' \<and> CHR ''-'' \<notin> set ''/a/b'' \<and> disk_ab ''/a/b'' = Inr True
   \<and> decode_project_dir_name disk_ab (encode_path ''/a/b'') = Inr ''/a_b''
   \<and> decode_project_dir_name disk_ab (encode_path ''/a/b'') \<noteq> Inr ''/a/b''"
  by (simp add: decode_project_dir_name_def encode_path_def disk_ab_def)

text \<open>
  When an existence check raises, so does the decoder: with every check refused, a name
  of two segments is not decoded.
\<close>

lemma decode_project_dir_name_raises:
  "decode_project_dir_name disk_denied (encode_path ''/a/b'') = Inl PermissionError"
  by (simp add: decode_project_dir_name_def encode_path_def disk_denied_def)

text \<open>
  C3, amended: for every absolute path none of whose segments contains the delimiter, if
  every existence check on the underscore-joined paths the decoder probes returns and
  reports that the path does not exist, then the decoder returns, and what it returns for
  the encoded form is the original path.
\<close>

theorem decode_roundtrip:
  assumes "p = CHR ''/'' # rest"
    and "CHR ''-'' \<notin> set p"
    and "\<forall>t \<in> set (merge_probes [] (split_on CHR ''/'' rest)). ex t = Inr False"
  shows "decode_project_dir_name ex (encode_path p) = Inr p"
proof -
  have enc: "encode_path p = CHR ''-'' # encode_path rest"
    using assms(1) by (simp add: encode_path_def)
  have parts: "split_on CHR ''-'' (encode_path rest) = split_on CHR ''/'' rest"
    using assms(1,2) by (intro split_on_encode) simp
  have "decode_loop ex [] (split_on CHR ''/'' rest) = Inr (split_on CHR ''/'' rest)"
    using decode_loop_no_merge [OF assms(3)] by simp
  then have "decode_project_dir_name ex (encode_path p)
               = Inr (''/'' @ join ''/'' (split_on CHR ''/'' rest))"
    by (simp add: decode_project_dir_name_def enc parts)
  also have "''/'' @ join ''/'' (split_on CHR ''/'' rest) = p"
    using assms(1) join_split_on [of "CHR ''/''" rest] by simp
  finally show ?thesis .
qed

theorem decode_roundtrip_witness:
  "merge_probes [] (split_on CHR ''/'' ''home/pat/dev'') = [''/home_pat'', ''/home/pat_dev'']
   \<and> disk_dev ''/home_pat'' = Inr False \<and> disk_dev ''/home/pat_dev'' = Inr False
   \<and> decode_project_dir_name disk_dev (encode_path ''/home/pat/dev'') = Inr ''/home/pat/dev''"
  using decode_roundtrip [of "''/home/pat/dev''" "''home/pat/dev''" disk_dev]
  by (simp add: disk_dev_def)


section \<open>Properties of the parser, the orphan finder and the collector\<close>

lemma parse_entry_Inr:
  assumes "parse_entry fromiso d e = Inr s"
  shows "map fst s = indexed_keys" and "session_id_of s = Some (Json (entry_session_id e))"
  using assms by (cases e; auto simp: indexed_keys_def session_id_of_def split: sum.splits)+

lemma parse_entries_Inr:
  "parse_entries fromiso d es = Inr ss \<Longrightarrow>
     (\<forall>s \<in> set ss. map fst s = indexed_keys) \<and>
     map session_id_of ss = map (\<lambda>e. Some (Json (entry_session_id e))) es"
proof (induction es arbitrary: ss)
  case Nil
  then show ?case by simp
next
  case (Cons e es)
  then show ?case
    by (auto split: sum.splits dest: parse_entry_Inr)
qed

lemma parse_entry_Inl:
  "parse_entry fromiso d e = Inl err \<Longrightarrow> err = AttributeError \<or> err = TypeError"
  by (cases e; cases "dict_get (case e of JObj kv \<Rightarrow> kv | _ \<Rightarrow> []) ''firstPrompt'' (JStr [])";
      auto simp: parse_created_def split: sum.splits if_splits json.splits option.splits)

lemma parse_entries_Inl:
  "parse_entries fromiso d es = Inl err \<Longrightarrow> err = AttributeError \<or> err = TypeError"
  by (induction es) (auto split: sum.splits dest: parse_entry_Inl)

lemma parse_session_index_Inr:
  assumes "parse_session_index fromiso idx = Inr ss"
  shows "\<forall>s \<in> set ss. map fst s = indexed_keys"
    and "map session_id_of ss = map (\<lambda>j. Some (Json j)) (index_session_ids idx)"
proof -
  have "(\<forall>s \<in> set ss. map fst s = indexed_keys) \<and>
        map session_id_of ss = map (\<lambda>j. Some (Json j)) (index_session_ids idx)"
  proof (cases idx)
    case (Parsed j)
    show ?thesis
    proof (cases j)
      case (JObj d)
      with Parsed assms show ?thesis
        by (auto simp: parse_session_index_def index_session_ids_def comp_def
                 split: sum.splits if_splits dest: parse_entries_Inr parse_entries_Inl)
    qed (use Parsed assms in \<open>auto simp: parse_session_index_def\<close>)
  qed (use assms in \<open>auto simp: parse_session_index_def index_session_ids_def\<close>)
  then show "\<forall>s \<in> set ss. map fst s = indexed_keys"
    and "map session_id_of ss = map (\<lambda>j. Some (Json j)) (index_session_ids idx)"
    by simp_all
qed

lemma add_session_ids_Inr:
  "add_session_ids ss ids = Inr ids' \<Longrightarrow> ids' = ids \<union> {v. Some v \<in> session_id_of ` set ss}"
proof (induction ss arbitrary: ids)
  case Nil
  then show ?case by simp
next
  case (Cons s ss)
  then show ?case
    by (auto simp: session_id_of_def split: option.splits if_splits)
qed

lemma collect_indexed_Inr:
  "collect_indexed fromiso idxs all_sessions ids = Inr (all', ids') \<Longrightarrow>
     \<exists>new. all' = all_sessions @ new
         \<and> (\<forall>s \<in> set new. map fst s = indexed_keys)
         \<and> map session_id_of new = map (\<lambda>j. Some (Json j)) (concat (map index_session_ids idxs))
         \<and> ids' = ids \<union> Json ` set (concat (map index_session_ids idxs))"
proof (induction idxs arbitrary: all_sessions ids)
  case Nil
  then show ?case by simp
next
  case (Cons idx idxs)
  from Cons.prems obtain ss ids1 where
    p: "parse_session_index fromiso idx = Inr ss" and
    a: "add_session_ids ss ids = Inr ids1" and
    r: "collect_indexed fromiso idxs (all_sessions @ ss) ids1 = Inr (all', ids')"
    by (auto split: sum.splits)
  from Cons.IH [OF r] obtain new where
    n: "all' = (all_sessions @ ss) @ new"
       "\<forall>s \<in> set new. map fst s = indexed_keys"
       "map session_id_of new = map (\<lambda>j. Some (Json j)) (concat (map index_session_ids idxs))"
       "ids' = ids1 \<union> Json ` set (concat (map index_session_ids idxs))"
    by blast
  have m: "map session_id_of ss = map (\<lambda>j. Some (Json j)) (index_session_ids idx)"
    by (rule parse_session_index_Inr(2) [OF p])
  have "session_id_of ` set ss = (\<lambda>j. Some (Json j)) ` set (index_session_ids idx)"
    using arg_cong [OF m, of set] by simp
  then have "{v. Some v \<in> session_id_of ` set ss} = Json ` set (index_session_ids idx)"
    by auto
  with add_session_ids_Inr [OF a]
  have i1: "ids1 = ids \<union> Json ` set (index_session_ids idx)" by simp
  show ?case
    apply (rule exI [of _ "ss @ new"])
    using n m i1 parse_session_index_Inr(1) [OF p] by auto
qed

lemma orphan_session_Inr:
  assumes "orphan_session pdir f = Inr s"
  shows "map fst s = orphan_keys"
    and "session_id_of s = Some (Json (JStr (path_stem (file_path f))))"
    and "map_of s ''full_path'' = Some (Json (JStr (file_path f)))"
  using assms
  by (auto simp: orphan_session_def orphan_keys_def session_id_of_def split: option.splits sum.splits)

lemma find_orphan_sessions_mem:
  "s \<in> set (find_orphan_sessions pdir files ids) \<Longrightarrow>
     \<exists>f \<in> set files. \<not> skipped (file_path f)
        \<and> Json (JStr (path_stem (file_path f))) \<notin> ids
        \<and> orphan_session pdir f = Inr s"
  by (induction files) (auto split: if_splits sum.splits)

lemma find_orphan_sessions_distinct:
  "distinct (map (\<lambda>f. path_stem (file_path f)) (filter (\<lambda>f. \<not> skipped (file_path f)) files))
     \<Longrightarrow> distinct (map session_id_of (find_orphan_sessions pdir files ids))"
proof (induction files)
  case Nil
  then show ?case by simp
next
  case (Cons f files)
  show ?case
  proof (cases "skipped (file_path f)")
    case True
    with Cons show ?thesis by simp
  next
    case False
    with Cons.prems have
      d: "distinct (map (\<lambda>f. path_stem (file_path f)) (filter (\<lambda>f. \<not> skipped (file_path f)) files))"
      and n0: "path_stem (file_path f) \<notin>
                 (\<lambda>f. path_stem (file_path f)) ` set (filter (\<lambda>f. \<not> skipped (file_path f)) files)"
      by simp_all
    have n: "\<forall>g \<in> set files. \<not> skipped (file_path g) \<longrightarrow> path_stem (file_path g) \<noteq> path_stem (file_path f)"
    proof (intro ballI impI notI)
      fix g assume "g \<in> set files" "\<not> skipped (file_path g)"
        "path_stem (file_path g) = path_stem (file_path f)"
      then have "path_stem (file_path f) \<in>
                 (\<lambda>f. path_stem (file_path f)) ` set (filter (\<lambda>f. \<not> skipped (file_path f)) files)"
        by (intro image_eqI [where x = g]) simp_all
      with n0 show False by contradiction
    qed
    have "session_id_of s \<notin> session_id_of ` set (find_orphan_sessions pdir files ids)"
      if "orphan_session pdir f = Inr s" for s
    proof
      assume "session_id_of s \<in> session_id_of ` set (find_orphan_sessions pdir files ids)"
      then obtain s' where s': "s' \<in> set (find_orphan_sessions pdir files ids)"
        "session_id_of s' = session_id_of s" by auto
      from find_orphan_sessions_mem [OF s'(1)] obtain g where
        g: "g \<in> set files" "\<not> skipped (file_path g)" "orphan_session pdir g = Inr s'" by blast
      from orphan_session_Inr(2) [OF g(3)] orphan_session_Inr(2) [OF that] s'(2)
      have "path_stem (file_path g) = path_stem (file_path f)" by simp
      with n g show False by blast
    qed
    then have "\<And>s. orphan_session pdir f = Inr s \<Longrightarrow>
        session_id_of s \<notin> session_id_of ` set (find_orphan_sessions pdir files ids)" .
    note fresh = this
    show ?thesis
      using False Cons.IH [OF d] fresh by (simp split: sum.splits)
  qed
qed

lemma parse_index_abc: "parse_session_index iso_example index_abc = Inr [session_abc]"
  by (simp add: parse_session_index_def index_abc_def parse_created_def dict_get_def
        iso_example_def session_abc_def)

lemma stem_abc: "path_stem ''/p/proj/abc.jsonl'' = ''abc''"
  by (simp add: path_stem_def path_name_def name_stem_def)

lemma stem_xyz: "path_stem ''/p/proj/xyz.jsonl'' = ''xyz''"
  by (simp add: path_stem_def path_name_def name_stem_def)

lemma not_skipped_abc: "\<not> skipped ''/p/proj/abc.jsonl''"
  by (simp add: skipped_def path_name_def)

lemma not_skipped_xyz: "\<not> skipped ''/p/proj/xyz.jsonl''"
  by (simp add: skipped_def path_name_def)

lemma skipped_agent: "skipped ''/p/proj/agent-7.jsonl''"
  by (simp add: skipped_def path_name_def)

lemma orphan_xyz: "orphan_session ''/p'' log_xyz = Inr session_xyz"
  by (simp add: orphan_session_def log_xyz_def stem_xyz dict_get_def session_xyz_def
        path_parent_def path_name_def)

lemma collect_example:
  "collect_all_sessions iso_example ''/p'' [index_abc] [log_abc, log_agent, log_xyz]
     = Inr [session_abc, session_xyz]"
  by (simp add: collect_all_sessions_def parse_index_abc orphan_xyz
        log_abc_def log_agent_def stem_abc not_skipped_abc skipped_agent
        stem_xyz not_skipped_xyz session_abc_def)
     (simp add: log_xyz_def stem_xyz not_skipped_xyz)


section \<open>Claims about parsing and collection\<close>

lemma collect_all_sessions_Inr:
  assumes "collect_all_sessions fromiso projects_dir indexes files = Inr out"
  shows "\<exists>indexed.
           out = indexed
                   @ find_orphan_sessions projects_dir files
                       (Json ` set (concat (map index_session_ids indexes)))
         \<and> (\<forall>s \<in> set indexed. map fst s = indexed_keys)
         \<and> map session_id_of indexed
               = map (\<lambda>j. Some (Json j)) (concat (map index_session_ids indexes))"
proof -
  from assms obtain all_sessions ids where
    c: "collect_indexed fromiso indexes [] {} = Inr (all_sessions, ids)" and
    out: "out = all_sessions @ find_orphan_sessions projects_dir files ids"
    by (auto simp: collect_all_sessions_def split: sum.splits)
  from collect_indexed_Inr [OF c] out show ?thesis by auto
qed

text \<open>
  C1, as stated: no two positions of the collected list hold the same \<open>session_id\<close>, even
  when an identifier occurs in more than one index file.  This fails: the sessions of
  every index are appended as they are, so an identifier listed by two index files is
  collected twice.
\<close>

theorem collect_duplicate_index_counterexample:
  "collect_all_sessions iso_example ''/p'' [index_abc, index_abc] []
     = Inr [session_abc, session_abc]
   \<and> \<not> distinct (map session_id_of [session_abc, session_abc])"
  by (simp add: collect_all_sessions_def parse_index_abc session_abc_def)

text \<open>
  C1, amended: when the collection returns, the identifiers listed by the index files are
  pairwise different and the log files that are not skipped have pairwise different stems,
  then no two positions of the collected list hold the same \<open>session_id\<close>; in particular
  an identifier that is both indexed and the stem of a log file is collected once.
\<close>

theorem collect_session_ids_distinct:
  assumes "collect_all_sessions fromiso projects_dir indexes files = Inr out"
    and "distinct (concat (map index_session_ids indexes))"
    and "distinct (map (\<lambda>f. path_stem (file_path f))
                     (filter (\<lambda>f. \<not> skipped (file_path f)) files))"
  shows "distinct (map session_id_of out)"
proof -
  let ?js = "concat (map index_session_ids indexes)"
  let ?orphans = "find_orphan_sessions projects_dir files (Json ` set ?js)"
  from collect_all_sessions_Inr [OF assms(1)] obtain indexed where
    out: "out = indexed @ ?orphans" and
    ids: "map session_id_of indexed = map (\<lambda>j. Some (Json j)) ?js"
    by blast
  have "distinct (map (\<lambda>j. Some (Json j)) ?js)"
    using assms(2) by (simp add: distinct_map inj_on_def)
  then have d1: "distinct (map session_id_of indexed)"
    by (simp add: ids)
  have d2: "distinct (map session_id_of ?orphans)"
    by (rule find_orphan_sessions_distinct [OF assms(3)])
  have d3: "session_id_of ` set indexed \<inter> session_id_of ` set ?orphans = {}"
  proof (rule ccontr)
    assume "session_id_of ` set indexed \<inter> session_id_of ` set ?orphans \<noteq> {}"
    then obtain v where "v \<in> session_id_of ` set indexed" "v \<in> session_id_of ` set ?orphans"
      by blast
    then obtain s where s: "s \<in> set ?orphans" "session_id_of s \<in> session_id_of ` set indexed"
      by (metis imageE)
    from find_orphan_sessions_mem [OF s(1)] obtain f where
      f: "Json (JStr (path_stem (file_path f))) \<notin> Json ` set ?js"
         "orphan_session projects_dir f = Inr s" by blast
    have "session_id_of ` set indexed = (\<lambda>j. Some (Json j)) ` set ?js"
      using arg_cong [OF ids, of set] by simp
    with s(2) orphan_session_Inr(2) [OF f(2)] f(1) show False by auto
  qed
  show ?thesis
    using d1 d2 d3 by (simp add: out)
qed

theorem collect_session_ids_distinct_witness:
  "collect_all_sessions iso_example ''/p'' [index_abc] [log_abc, log_agent, log_xyz]
     = Inr [session_abc, session_xyz]
   \<and> distinct (map session_id_of [session_abc, session_xyz])"
proof -
  have ids: "index_session_ids index_abc = [JStr ''abc'']"
    by (simp add: index_session_ids_def index_abc_def dict_get_def)
  have files: "map (\<lambda>f. path_stem (file_path f))
                 (filter (\<lambda>f. \<not> skipped (file_path f)) [log_abc, log_agent, log_xyz])
               = [''abc'', ''xyz'']"
    by (simp add: log_abc_def log_agent_def log_xyz_def stem_abc stem_xyz
          not_skipped_abc not_skipped_xyz skipped_agent)
  show ?thesis
    using collect_session_ids_distinct [OF collect_example] ids files
    by (simp add: collect_example)
qed

text \<open>
  C2: \<open>find_orphan_sessions\<close> is called with the identifiers of all index files together,
  and no session it emits has an identifier that some entry of some index file carries.
  The collected list is the indexed sessions followed by those orphans.
\<close>

theorem indexed_id_never_orphan:
  assumes "collect_all_sessions fromiso projects_dir indexes files = Inr out"
  shows "\<exists>indexed.
           out = indexed
                   @ find_orphan_sessions projects_dir files
                       (Json ` set (concat (map index_session_ids indexes)))
         \<and> map session_id_of indexed
               = map (\<lambda>j. Some (Json j)) (concat (map index_session_ids indexes))
         \<and> (\<forall>s \<in> set (find_orphan_sessions projects_dir files
                          (Json ` set (concat (map index_session_ids indexes)))).
              \<forall>idx \<in> set indexes. \<forall>sid \<in> set (index_session_ids idx).
                session_id_of s \<noteq> Some (Json sid))"
proof -
  let ?ids = "Json ` set (concat (map index_session_ids indexes))"
  have "session_id_of s \<noteq> Some (Json sid)"
    if "s \<in> set (find_orphan_sessions projects_dir files ?ids)"
      "idx \<in> set indexes" "sid \<in> set (index_session_ids idx)" for s idx sid
  proof -
    from find_orphan_sessions_mem [OF that(1)] obtain f where
      f: "Json (JStr (path_stem (file_path f))) \<notin> ?ids"
         "orphan_session projects_dir f = Inr s" by blast
    have "Json sid \<in> ?ids" using that(2,3) by auto
    with f(1) orphan_session_Inr(2) [OF f(2)] show ?thesis by auto
  qed
  with collect_all_sessions_Inr [OF assms] show ?thesis by blast
qed

theorem indexed_id_never_orphan_witness:
  "collect_all_sessions iso_example ''/p'' [index_abc] [log_abc, log_agent, log_xyz]
     = Inr [session_abc, session_xyz]
   \<and> index_session_ids index_abc = [JStr ''abc'']
   \<and> find_orphan_sessions ''/p'' [log_abc, log_agent, log_xyz] {Json (JStr ''abc'')}
       = [session_xyz]
   \<and> session_id_of session_xyz \<noteq> Some (Json (JStr ''abc''))"
proof -
  have ids: "index_session_ids index_abc = [JStr ''abc'']"
    by (simp add: index_session_ids_def index_abc_def dict_get_def)
  have orph: "find_orphan_sessions ''/p'' [log_abc, log_agent, log_xyz] {Json (JStr ''abc'')}
       = [session_xyz]"
    using orphan_xyz
    by (simp add: log_abc_def log_agent_def stem_abc not_skipped_abc skipped_agent)
       (simp add: log_xyz_def stem_xyz not_skipped_xyz)
  show ?thesis
    using indexed_id_never_orphan [OF collect_example] ids orph
    by (simp add: collect_example)
qed


lemma split_on_sublist:
  "prefix (hd (split_on c s)) s \<and> (\<forall>seg \<in> set (split_on c s). sublist seg s)"
proof (induction s)
  case Nil
  show ?case by simp
next
  case (Cons x xs)
  obtain w ws where ws: "split_on c xs = w # ws"
    by (cases "split_on c xs") simp_all
  with Cons have w: "prefix w xs" and all: "\<forall>seg \<in> set (w # ws). sublist seg xs"
    by simp_all
  show ?case
  proof (cases "x = c")
    case True
    with all ws show ?thesis by (auto simp: sublist_Cons_right)
  next
    case False
    have "sublist (x # w) (x # xs)"
      using w by (intro prefix_imp_sublist) simp
    with False all ws w show ?thesis by (auto simp: sublist_Cons_right)
  qed
qed

lemma segment_skipped:
  "''subagents'' \<in> set (split_on CHR ''/'' p) \<or> prefix ''agent-'' (path_name p) \<Longrightarrow> skipped p"
  using split_on_sublist [of "CHR ''/''" p]
  by (auto simp: skipped_def str_contains_sublist)

lemma find_session_file_Some:
  "fst (find_session_file session_id files) = Some f \<Longrightarrow> f \<in> set (session_matches session_id files)"
  by (cases "session_matches session_id files")
     (auto simp: find_session_file_def Let_def split: if_splits)

lemma find_session_file_printed:
  "l \<in> set (snd (find_session_file session_id files)) \<Longrightarrow>
     l = ''Multiple sessions match '' @ [CHR 0x27] @ session_id @ [CHR 0x27] @ '':''
     \<or> (\<exists>f \<in> set (session_matches session_id files). l = ''  '' @ path_stem (file_path f))"
  by (auto simp: find_session_file_def Let_def split: if_splits)

text \<open>
  C6: a file with a path segment \<open>subagents\<close>, or whose name starts with \<open>agent-\<close>, is
  the file of no session that \<open>find_orphan_sessions\<close> emits, is no match of
  \<open>find_session_file\<close> for any query, is never the file it returns, and every candidate
  line it prints belongs to another file; no orphan record of the collected list is a
  record of this file.
\<close>

theorem subagent_files_excluded:
  assumes "''subagents'' \<in> set (split_on CHR ''/'' p) \<or> prefix ''agent-'' (path_name p)"
  shows "(\<forall>s \<in> set (find_orphan_sessions projects_dir files ids).
            map_of s ''full_path'' \<noteq> Some (Json (JStr p)))
       \<and> (\<forall>f \<in> set (session_matches session_id files). file_path f \<noteq> p)
       \<and> (\<forall>f. fst (find_session_file session_id files) = Some f \<longrightarrow> file_path f \<noteq> p)
       \<and> (\<forall>l \<in> set (snd (find_session_file session_id files)).
            l = ''Multiple sessions match '' @ [CHR 0x27] @ session_id @ [CHR 0x27] @ '':''
            \<or> (\<exists>f \<in> set files. file_path f \<noteq> p \<and> l = ''  '' @ path_stem (file_path f)))
       \<and> (\<forall>out. collect_all_sessions fromiso projects_dir indexes files = Inr out \<longrightarrow>
            (\<forall>s \<in> set out. map fst s = orphan_keys \<longrightarrow>
               map_of s ''full_path'' \<noteq> Some (Json (JStr p))))"
proof -
  have sk: "skipped p" by (rule segment_skipped [OF assms])
  have a: "map_of s ''full_path'' \<noteq> Some (Json (JStr p))"
    if "s \<in> set (find_orphan_sessions projects_dir files ids)" for s
  proof -
    from find_orphan_sessions_mem [OF that] obtain f where
      f: "\<not> skipped (file_path f)" "orphan_session projects_dir f = Inr s" by blast
    from orphan_session_Inr(3) [OF f(2)] f(1) sk show ?thesis by auto
  qed
  have b: "file_path f \<noteq> p" if "f \<in> set (session_matches session_id files)" for f
    using that sk by (auto simp: session_matches_def)
  have c: "file_path f \<noteq> p" if "fst (find_session_file session_id files) = Some f" for f
    using b [OF find_session_file_Some [OF that]] .
  have d: "l = ''Multiple sessions match '' @ [CHR 0x27] @ session_id @ [CHR 0x27] @ '':''
            \<or> (\<exists>f \<in> set files. file_path f \<noteq> p \<and> l = ''  '' @ path_stem (file_path f))"
    if "l \<in> set (snd (find_session_file session_id files))" for l
    using find_session_file_printed [OF that] b
    by (auto simp: session_matches_def)
  have e: "map_of s ''full_path'' \<noteq> Some (Json (JStr p))"
    if "collect_all_sessions fromiso projects_dir indexes files = Inr out"
      "s \<in> set out" "map fst s = orphan_keys" for out s
  proof -
    from collect_all_sessions_Inr [OF that(1)] obtain indexed where
      out: "out = indexed @ find_orphan_sessions projects_dir files
                    (Json ` set (concat (map index_session_ids indexes)))"
      and keys: "\<forall>s \<in> set indexed. map fst s = indexed_keys"
      by blast
    have "indexed_keys \<noteq> orphan_keys"
      by (simp add: indexed_keys_def orphan_keys_def)
    with keys that(3) have "s \<notin> set indexed" by auto
    with out that(2) have "s \<in> set (find_orphan_sessions projects_dir files
                    (Json ` set (concat (map index_session_ids indexes))))"
      by simp
    from find_orphan_sessions_mem [OF this] obtain f where
      f: "\<not> skipped (file_path f)" "orphan_session projects_dir f = Inr s" by blast
    from orphan_session_Inr(3) [OF f(2)] f(1) sk show ?thesis by auto
  qed
  from a b c d e show ?thesis by blast
qed

theorem subagent_files_excluded_witness:
  "prefix ''agent-'' (path_name (file_path log_agent))
   \<and> find_orphan_sessions ''/p'' [log_agent, log_xyz] {} = [session_xyz]
   \<and> map_of session_xyz ''full_path'' \<noteq> Some (Json (JStr (file_path log_agent)))
   \<and> find_session_file ''agent'' [log_agent, log_xyz] = (None, [])
   \<and> fst (find_session_file [] [log_agent, log_xyz]) = Some log_xyz"
proof -
  have p: "prefix ''agent-'' (path_name (file_path log_agent))"
    by (simp add: log_agent_def path_name_def)
  have o: "find_orphan_sessions ''/p'' [log_agent, log_xyz] {} = [session_xyz]"
    using orphan_xyz by (simp add: log_agent_def skipped_agent) (simp add: log_xyz_def not_skipped_xyz)
  have m1: "session_matches ''agent'' [log_agent, log_xyz] = []"
    by (simp add: session_matches_def log_agent_def skipped_agent log_xyz_def stem_xyz)
  have m2: "session_matches [] [log_agent, log_xyz] = [log_xyz]"
    by (simp add: session_matches_def log_agent_def skipped_agent)
       (simp add: log_xyz_def stem_xyz not_skipped_xyz)
  show ?thesis
    using subagent_files_excluded [of "file_path log_agent" "''/p''" "[log_agent, log_xyz]" "{}" "''agent''"]
      p o
    by (simp add: find_session_file_def m1 m2)
qed

text \<open>
  C8, as stated: every collected session carries all fields of the data model, among them
  \<open>modified\<close> and \<open>git_branch\<close>.  This fails for a session promoted from a log file:
  the dict of lines 102-110 has neither key.
\<close>

theorem orphan_lacks_modified_counterexample:
  "collect_all_sessions iso_example ''/p'' [] [log_xyz] = Inr [session_xyz]
   \<and> map_of session_xyz ''modified'' = None
   \<and> map_of session_xyz ''git_branch'' = None"
proof -
  have "find_orphan_sessions ''/p'' [log_xyz] {} = [session_xyz]"
    using orphan_xyz by (simp add: log_xyz_def not_skipped_xyz)
  then show ?thesis
    by (simp add: collect_all_sessions_def) (simp add: session_xyz_def)
qed

text \<open>
  C8, amended: the collected list is the indexed sessions followed by the orphans; every
  indexed session carries exactly the nine fields \<open>session_id\<close>, \<open>summary\<close>,
  \<open>first_prompt\<close>, \<open>message_count\<close>, \<open>created\<close>, \<open>modified\<close>, \<open>project_path\<close>,
  \<open>git_branch\<close>, \<open>full_path\<close>, and every orphan exactly the seven that remain without
  \<open>modified\<close> and \<open>git_branch\<close>.
\<close>

theorem collected_session_fields:
  assumes "collect_all_sessions fromiso projects_dir indexes files = Inr out"
  shows "\<exists>indexed orphans.
           out = indexed @ orphans
         \<and> orphans = find_orphan_sessions projects_dir files
                        (Json ` set (concat (map index_session_ids indexes)))
         \<and> (\<forall>s \<in> set indexed. map fst s = indexed_keys)
         \<and> (\<forall>s \<in> set orphans. map fst s = orphan_keys)"
proof -
  have "map fst s = orphan_keys"
    if "s \<in> set (find_orphan_sessions projects_dir files ids)" for s ids
    using find_orphan_sessions_mem [OF that] orphan_session_Inr(1) by blast
  with collect_all_sessions_Inr [OF assms] show ?thesis by blast
qed

theorem collected_session_fields_witness:
  "collect_all_sessions iso_example ''/p'' [index_abc] [log_abc, log_agent, log_xyz]
     = Inr [session_abc, session_xyz]
   \<and> map fst session_abc = indexed_keys
   \<and> map fst session_xyz = orphan_keys"
  using collected_session_fields [OF collect_example]
  by (simp add: collect_example session_abc_def session_xyz_def indexed_keys_def orphan_keys_def)

text \<open>
  The part of C4 that holds: an index file that is absent or is not JSON gives the empty
  list.
\<close>

lemma parse_session_index_missing_or_malformed:
  "parse_session_index fromiso Missing = Inr []"
  "parse_session_index fromiso Malformed = Inr []"
  by (simp_all add: parse_session_index_def)

text \<open>
  C4: no input to \<open>parse_session_index\<close> aborts the collection.  The code does not do
  this: an index file holding the JSON document \<open>[]\<close> raises \<open>AttributeError\<close> at
  \<open>data.get\<close>, which the \<open>except\<close> clause of line 67 does not name, and the exception
  ends \<open>collect_all_sessions\<close> whatever the other index files hold.
\<close>

theorem parse_session_index_wrong_shape_aborts:
  "parse_session_index fromiso (Parsed (JArr [])) = Inl AttributeError
   \<and> collect_all_sessions fromiso projects_dir (Parsed (JArr []) # indexes) files
       = Inl AttributeError"
  by (simp add: parse_session_index_def collect_all_sessions_def)

text \<open>
  The part of C5 that holds: a \<open>created\<close> value that is a string or is falsy never
  raises, an unparseable string gives \<open>None\<close>, and a trailing \<open>Z\<close> reaches
  \<open>fromisoformat\<close> as \<open>+00:00\<close>.
\<close>

lemma parse_created_string:
  "\<exists>v. parse_created fromiso (JStr s) = Inr v"
  by (simp add: parse_created_def split: option.splits)

lemma parse_created_falsy:
  "\<not> truthy j \<Longrightarrow> parse_created fromiso j = Inr (Json JNull)"
  by (simp add: parse_created_def)

lemma parse_created_unparseable:
  "fromiso (str_replace ''Z'' ''+00:00'' s) = None \<Longrightarrow>
     parse_created fromiso (JStr s) = Inr (Json JNull)"
  by (simp add: parse_created_def)

lemma str_replace_trailing:
  "c \<notin> set s \<Longrightarrow> str_replace [c] new (s @ [c]) = s @ new"
  by (induction s) simp_all

lemma str_replace_trailing_Z:
  "CHR ''Z'' \<notin> set s \<Longrightarrow> str_replace ''Z'' ''+00:00'' (s @ ''Z'') = s @ ''+00:00''"
  by (rule str_replace_trailing)

text \<open>
  C5: timestamp parsing never raises, whatever the \<open>created\<close> value.  The code does not
  do this: a number such as \<open>1704103200\<close> is truthy and has no \<open>replace\<close>, so line 48
  raises \<open>AttributeError\<close>, which neither \<open>except ValueError\<close> nor the clause of
  line 67 catches.
\<close>

theorem parse_created_number_raises:
  "parse_created fromiso (JInt 1704103200) = Inl AttributeError
   \<and> parse_session_index fromiso
       (Parsed (JObj [(''entries'',
          JArr [JObj [(''sessionId'', JStr ''abc''), (''created'', JInt 1704103200)]])]))
       = Inl AttributeError"
  by (simp add: parse_created_def parse_session_index_def dict_get_def)


section \<open>Claims about date grouping and the transcript viewer\<close>

lemma bucket_append_keys:
  "map fst (bucket_append k s bd) = (if k \<in> fst ` set bd then map fst bd else map fst bd @ [k])"
  by (induction bd) force+

lemma bucket_append_distinct:
  "distinct (map fst bd) \<Longrightarrow> distinct (map fst (bucket_append k s bd))"
  by (simp add: bucket_append_keys)

lemma bucket_append_lookup:
  "lookup_bucket (bucket_append k s bd) k' =
     (if k' = k then lookup_bucket bd k @ [s] else lookup_bucket bd k')"
  by (induction bd) (auto simp: lookup_bucket_def)

lemma group_loop_Inr:
  "group_loop strf ss bd = Inr bd' \<Longrightarrow> distinct (map fst bd) \<Longrightarrow>
     distinct (map fst bd') \<and>
     (\<forall>k. lookup_bucket bd' k = lookup_bucket bd k @ filter (\<lambda>s. date_key strf s = Inr k) ss)"
proof (induction ss arbitrary: bd)
  case Nil
  then show ?case by simp
next
  case (Cons s ss)
  from Cons.prems(1) obtain k where k: "date_key strf s = Inr k"
    and r: "group_loop strf ss (bucket_append k s bd) = Inr bd'"
    by (auto split: sum.splits)
  from Cons.IH [OF r bucket_append_distinct [OF Cons.prems(2)]] k
  show ?case by (auto simp: bucket_append_lookup)
qed

lemma time_keys_Inr:
  "time_keys b = Inr ks \<Longrightarrow> map time_key b = map Inr ks"
  by (induction b arbitrary: ks) (auto split: sum.splits)

lemma sort_bucket_stable:
  assumes "sort_bucket b = Inr b'"
  shows "filter (\<lambda>s. time_key s = Inr t) b' = filter (\<lambda>s. time_key s = Inr t) b"
proof -
  from assms obtain ks where ks: "time_keys b = Inr ks"
    and b': "b' = map snd (sort_key fst (zip ks b))"
    by (auto simp: sort_bucket_def split: sum.splits)
  have m: "map time_key b = map Inr ks" by (rule time_keys_Inr [OF ks])
  then have len: "length ks = length b" by (metis length_map)
  have key: "time_key (snd x) = Inr (fst x)" if "x \<in> set (zip ks b)" for x
  proof -
    from that obtain i where i: "i < length b" "x = (ks ! i, b ! i)"
      using len by (auto simp: set_zip)
    from m i(1) len have "time_key (b ! i) = Inr (ks ! i)"
      by (metis nth_map)
    with i show ?thesis by simp
  qed
  have eq: "filter ((\<lambda>s. time_key s = Inr t) \<circ> snd) zs = filter (\<lambda>x. fst x = t) zs"
    if "set zs \<subseteq> set (zip ks b)" for zs
    using that key by (intro filter_cong) auto
  have "filter (\<lambda>s. time_key s = Inr t) b'
          = map snd (filter ((\<lambda>s. time_key s = Inr t) \<circ> snd) (sort_key fst (zip ks b)))"
    by (simp add: b' filter_map)
  also have "\<dots> = map snd (filter (\<lambda>x. fst x = t) (sort_key fst (zip ks b)))"
    by (subst eq) simp_all
  also have "\<dots> = map snd (filter (\<lambda>x. fst x = t) (zip ks b))"
    by (simp add: sort_key_stable)
  also have "\<dots> = map snd (filter ((\<lambda>s. time_key s = Inr t) \<circ> snd) (zip ks b))"
    by (subst eq) simp_all
  also have "\<dots> = filter (\<lambda>s. time_key s = Inr t) (map snd (zip ks b))"
    by (simp add: filter_map)
  also have "map snd (zip ks b) = b"
    using len by simp
  finally show ?thesis .
qed

lemma sort_buckets_Inr:
  "sort_buckets bd = Inr bd' \<Longrightarrow> (k, b') \<in> set bd' \<Longrightarrow>
     \<exists>b. (k, b) \<in> set bd \<and> sort_bucket b = Inr b'"
proof (induction bd arbitrary: bd')
  case Nil
  then show ?case by simp
next
  case (Cons kb bd)
  obtain k0 b0 where kb: "kb = (k0, b0)" by (cases kb)
  from Cons.prems(1) kb obtain b0' rest' where
    s: "sort_bucket b0 = Inr b0'" "sort_buckets bd = Inr rest'" "bd' = (k0, b0') # rest'"
    by (auto split: sum.splits)
  from Cons.prems(2) s(3) consider "(k, b') = (k0, b0')" | "(k, b') \<in> set rest'" by auto
  then show ?case
  proof cases
    case 1
    with s(1) kb show ?thesis by auto
  next
    case 2
    from Cons.IH [OF s(2) 2] show ?thesis by auto
  qed
qed

lemma group_buckets:
  assumes "group_sessions_by_date strf sessions = Inr buckets" and "(k, bucket) \<in> set buckets"
  shows "\<exists>b. sort_bucket b = Inr bucket \<and> b = filter (\<lambda>s. date_key strf s = Inr k) sessions"
proof -
  from assms(1) obtain bd sorted_buckets where
    g: "group_loop strf sessions [] = Inr bd" and
    s: "sort_buckets bd = Inr sorted_buckets" and
    r: "buckets = sort_key fst sorted_buckets"
    by (auto simp: group_sessions_by_date_def split: sum.splits)
  from assms(2) r have "(k, bucket) \<in> set sorted_buckets" by simp
  from sort_buckets_Inr [OF s this] obtain b where
    b: "(k, b) \<in> set bd" "sort_bucket b = Inr bucket" by blast
  from group_loop_Inr [OF g] have
    d: "distinct (map fst bd)" and
    l: "lookup_bucket bd k = lookup_bucket [] k @ filter (\<lambda>s. date_key strf s = Inr k) sessions"
    by simp_all
  from d b(1) have "map_of bd k = Some b" by simp
  with l have "b = filter (\<lambda>s. date_key strf s = Inr k) sessions"
    by (simp add: lookup_bucket_def)
  with b(2) show ?thesis by blast
qed

text \<open>
  C7: date grouping is stable.  Whenever \<open>group_sessions_by_date\<close> returns, in each of
  its buckets the sessions with a given normalized timestamp (absent ones count as
  \<open>datetime.min\<close>) are exactly the sessions of the input that belong to this bucket and
  have this timestamp, in the order of the input.
\<close>

theorem group_sessions_by_date_stable:
  assumes "group_sessions_by_date strftime_ymd sessions = Inr buckets"
    and "(k, bucket) \<in> set buckets"
  shows "filter (\<lambda>s. time_key s = Inr t) bucket
           = filter (\<lambda>s. date_key strftime_ymd s = Inr k \<and> time_key s = Inr t) sessions"
proof -
  from group_buckets [OF assms] have
    "sort_bucket (filter (\<lambda>s. date_key strftime_ymd s = Inr k) sessions) = Inr bucket"
    by blast
  from sort_bucket_stable [OF this, of t] show ?thesis
    by (simp add: conj_commute)
qed

lemma created_ok_keys:
  assumes "created_of s = Inr c" and "created_ok c"
  shows "\<exists>k. date_key strf s = Inr k" and "\<exists>t. time_key s = Inr t"
  using assms
  by (cases c rule: created_ok.cases; simp add: date_key_def time_key_def)+

lemma group_loop_total:
  "\<forall>s \<in> set ss. \<exists>k. date_key strf s = Inr k \<Longrightarrow> \<exists>bd'. group_loop strf ss bd = Inr bd'"
  by (induction ss arbitrary: bd) auto

lemma time_keys_total:
  "\<forall>s \<in> set b. \<exists>t. time_key s = Inr t \<Longrightarrow> \<exists>ks. time_keys b = Inr ks"
  by (induction b) auto

lemma sort_buckets_total:
  "\<forall>kb \<in> set bd. \<forall>s \<in> set (snd kb). \<exists>t. time_key s = Inr t \<Longrightarrow> \<exists>bd'. sort_buckets bd = Inr bd'"
proof (induction bd)
  case Nil
  show ?case by simp
next
  case (Cons kb bd)
  obtain k b where kb: "kb = (k, b)" by (cases kb)
  from Cons.prems kb have "\<forall>s \<in> set b. \<exists>t. time_key s = Inr t" by simp
  from time_keys_total [OF this] obtain ks where "time_keys b = Inr ks" ..
  then have "\<exists>b'. sort_bucket b = Inr b'" by (simp add: sort_bucket_def)
  moreover from Cons have "\<exists>bd'. sort_buckets bd = Inr bd'" by simp
  ultimately show ?case using kb by auto
qed

text \<open>
  Grouping returns on every list of sessions whose \<open>created\<close> is \<open>None\<close> or a
  datetime with a UTC instant, which is what the collector produces from datetimes in
  range.
\<close>

lemma group_sessions_by_date_total:
  assumes "\<forall>s \<in> set sessions. \<exists>c. created_of s = Inr c \<and> created_ok c"
  shows "\<exists>buckets. group_sessions_by_date strf sessions = Inr buckets"
proof -
  from assms have "\<forall>s \<in> set sessions. \<exists>k. date_key strf s = Inr k"
    using created_ok_keys(1) by blast
  from group_loop_total [OF this] obtain bd where g: "group_loop strf sessions [] = Inr bd"
    by blast
  have "\<exists>t. time_key s = Inr t" if "kb \<in> set bd" "s \<in> set (snd kb)" for kb s
  proof -
    from group_loop_Inr [OF g] have
      d: "distinct (map fst bd)" and
      l: "lookup_bucket bd (fst kb) = lookup_bucket [] (fst kb)
            @ filter (\<lambda>s. date_key strf s = Inr (fst kb)) sessions"
      by simp_all
    from d that(1) have "map_of bd (fst kb) = Some (snd kb)" by simp
    with l that(2) have "s \<in> set sessions" by (simp add: lookup_bucket_def)
    with assms show ?thesis using created_ok_keys(2) by blast
  qed
  then have "\<forall>kb \<in> set bd. \<forall>s \<in> set (snd kb). \<exists>t. time_key s = Inr t" by blast
  from sort_buckets_total [OF this] obtain bd' where "sort_buckets bd = Inr bd'" ..
  with g show ?thesis by (simp add: group_sessions_by_date_def)
qed

lemma time_key_abc: "time_key session_abc = Inr 63839700000000000"
  by (simp add: time_key_def created_of_def session_abc_def max_micro_def)

lemma time_key_xyz: "time_key session_xyz = Inr 63839700000000000"
  by (simp add: time_key_def created_of_def session_xyz_def)

lemma date_key_abc: "date_key strftime_example session_abc = Inr ''2024-01-01''"
  by (simp add: date_key_def created_of_def session_abc_def strftime_example_def)

lemma date_key_xyz: "date_key strftime_example session_xyz = Inr ''2024-01-01''"
  by (simp add: date_key_def created_of_def session_xyz_def strftime_example_def)

lemma group_example:
  "group_sessions_by_date strftime_example [session_xyz, session_abc]
     = Inr [(''2024-01-01'', [session_xyz, session_abc])]"
  by (simp add: group_sessions_by_date_def date_key_abc date_key_xyz sort_bucket_def
        time_key_abc time_key_xyz)

theorem group_sessions_by_date_stable_witness:
  "group_sessions_by_date strftime_example [session_xyz, session_abc]
     = Inr [(''2024-01-01'', [session_xyz, session_abc])]
   \<and> time_key session_xyz = time_key session_abc
   \<and> filter (\<lambda>s. time_key s = Inr 63839700000000000) [session_xyz, session_abc]
       = filter (\<lambda>s. date_key strftime_example s = Inr ''2024-01-01''
                     \<and> time_key s = Inr 63839700000000000) [session_xyz, session_abc]"
  using group_sessions_by_date_stable [OF group_example, of "''2024-01-01''"
          "[session_xyz, session_abc]" 63839700000000000]
  by (simp add: group_example time_key_abc time_key_xyz date_key_abc date_key_xyz)

lemma str_contains_refl: "str_contains s s"
  by (simp add: str_contains_sublist)

lemma two_members_length:
  assumes "x \<in> set xs" "y \<in> set xs" "x \<noteq> y"
  shows "1 < length xs"
proof -
  have "card {x, y} \<le> card (set xs)"
    using assms by (intro card_mono) auto
  also have "\<dots> \<le> length xs" by (rule card_length)
  finally show ?thesis using assms(3) by simp
qed

lemma find_session_file_ambiguous:
  "1 < length (session_matches session_id files) \<Longrightarrow>
     find_session_file session_id files =
       (None,
        (''Multiple sessions match '' @ [CHR 0x27] @ session_id @ [CHR 0x27] @ '':'')
          # map (\<lambda>m. ''  '' @ path_stem (file_path m)) (session_matches session_id files))"
  by (simp add: find_session_file_def Let_def)

lemma matches_ab: "session_matches ''ab'' [log_abc, log_abd] = [log_abc, log_abd]"
  by (simp add: session_matches_def log_abc_def log_abd_def skipped_def path_name_def
        path_stem_def name_stem_def)

text \<open>
  C9, as stated: for a query that matches two or more files, \<open>view_session\<close> returns a
  result that lists all candidate identifiers.  This fails: what it returns is the
  not-found message with the query only; the candidates are printed by
  \<open>find_session_file\<close> and are not part of the returned value.
\<close>

theorem view_session_candidates_counterexample:
  "session_matches ''ab'' [log_abc, log_abd] = [log_abc, log_abd]
   \<and> path_stem (file_path log_abc) = ''abc''
   \<and> fst (view_session render_example ''ab'' [log_abc, log_abd] 0)
       = Inr ''Session not found: ab''
   \<and> \<not> str_contains ''abc'' ''Session not found: ab''"
  by (simp add: matches_ab view_session_def find_session_file_def)
     (simp add: log_abc_def stem_abc)

text \<open>
  C9, amended: for a query that is a substring of the stems of two or more eligible
  files, \<open>view_session\<close> renders nothing and returns \<open>Session not found: <query>\<close>, and
  \<open>find_session_file\<close> has printed a header line followed by one line per candidate
  stem, in the order of the glob.
\<close>

theorem view_session_ambiguous:
  assumes "1 < length (session_matches session_id files)"
  shows "view_session render session_id files max_messages =
           (Inr (''Session not found: '' @ session_id),
            (''Multiple sessions match '' @ [CHR 0x27] @ session_id @ [CHR 0x27] @ '':'')
              # map (\<lambda>m. ''  '' @ path_stem (file_path m)) (session_matches session_id files))"
  by (simp add: view_session_def find_session_file_ambiguous [OF assms])

theorem view_session_ambiguous_witness:
  "view_session render_example ''ab'' [log_abc, log_abd] 0 =
     (Inr ''Session not found: ab'',
      [''Multiple sessions match '' @ [CHR 0x27] @ ''ab'' @ [CHR 0x27] @ '':'',
       ''  abc'', ''  abd''])"
  using view_session_ambiguous [of "''ab''" "[log_abc, log_abd]" render_example 0]
  by (simp add: matches_ab) (simp add: log_abc_def log_abd_def path_stem_def path_name_def name_stem_def)

text \<open>
  C10: a query that is the stem of one eligible file and a proper substring of the stem
  of another is ambiguous: \<open>find_session_file\<close> returns no file and \<open>view_session\<close>
  the not-found message.
\<close>

theorem exact_match_not_preferred:
  assumes "f \<in> set files" and "g \<in> set files"
    and "\<not> skipped (file_path f)" and "\<not> skipped (file_path g)"
    and "path_stem (file_path f) = session_id"
    and "str_contains session_id (path_stem (file_path g))"
    and "path_stem (file_path g) \<noteq> session_id"
  shows "fst (find_session_file session_id files) = None
       \<and> fst (view_session render session_id files max_messages)
           = Inr (''Session not found: '' @ session_id)"
proof -
  have "f \<in> set (session_matches session_id files)"
    using assms(1,3,5) by (simp add: session_matches_def str_contains_refl)
  moreover have "g \<in> set (session_matches session_id files)"
    using assms(2,4,6) by (simp add: session_matches_def)
  moreover have "f \<noteq> g" using assms(5,7) by auto
  ultimately have "1 < length (session_matches session_id files)"
    by (rule two_members_length)
  then show ?thesis
    by (simp add: view_session_def find_session_file_ambiguous)
qed

theorem exact_match_not_preferred_witness:
  "path_stem (file_path log_abc) = ''abc''
   \<and> str_contains ''abc'' (path_stem (file_path log_abcd))
   \<and> path_stem (file_path log_abcd) \<noteq> ''abc''
   \<and> fst (find_session_file ''abc'' [log_abc, log_abcd]) = None
   \<and> fst (view_session render_example ''abc'' [log_abc, log_abcd] 0)
       = Inr ''Session not found: abc''"
proof -
  have s: "path_stem (file_path log_abcd) = ''abcd''"
    by (simp add: log_abcd_def path_stem_def path_name_def name_stem_def)
  have n: "\<not> skipped (file_path log_abcd)"
    by (simp add: log_abcd_def skipped_def path_name_def)
  have a: "path_stem (file_path log_abc) = ''abc''" "\<not> skipped (file_path log_abc)"
    by (simp_all add: log_abc_def stem_abc not_skipped_abc)
  show ?thesis
    using exact_match_not_preferred [of log_abc "[log_abc, log_abcd]" log_abcd "''abc''"
            render_example 0] s n a
    by simp
qed

end
